theory Spec2Isabelle
  imports Main "HOL-Library.Word"
begin

section \<open>Data model of the verifying client (client/verify.go, client/random.go)\<close>

text \<open>
  Byte slices are lists of 8-bit words and round numbers are Go's \<open>uint64\<close>, so
  \<open>round - 1\<close> wraps at round 0 exactly as in the source.  The only slice whose
  nil-ness the code inspects is \<open>RandomData.PreviousSignature\<close> (verify.go line 178);
  it is an option, every other slice is a plain list (nil and empty coincide).
\<close>

type_synonym bytes = "8 word list"

text \<open>\<open>RandomData\<close> of client/random.go, field by field.\<close>

record RandomData =
  Rnd :: "64 word"
  Random :: bytes
  Sig :: bytes
  PreviousSignature :: "bytes option"
  SigV2 :: bytes
  version :: "8 word"

definition RandomData_Round :: "RandomData \<Rightarrow> 64 word" where
  "RandomData_Round r = Rnd r"

definition RandomData_Signature :: "RandomData \<Rightarrow> bytes" where
  "RandomData_Signature r = (if version r = 2 then SigV2 r else Sig r)"

definition RandomData_Randomness :: "RandomData \<Rightarrow> bytes" where
  "RandomData_Randomness r = Random r"

text \<open>
  The \<open>Result\<close> interface of client/interface.go has two kinds of inhabitants as far as
  verify.go can tell them apart: a \<open>*RandomData\<close> (the type assertion of line 93
  succeeds) and any other implementation, of which the code reads \<open>Round()\<close>,
  \<open>Randomness()\<close>, \<open>Signature()\<close> and, when the value also implements
  \<open>resultWithPreviousSignature\<close>, \<open>PreviousSignature()\<close> (\<open>None\<close>: not implemented,
  or nil returned).
\<close>

datatype Result =
    Canonical RandomData
  | Foreign "64 word" bytes bytes "bytes option"

fun Round :: "Result \<Rightarrow> 64 word" where
  "Round (Canonical rd) = RandomData_Round rd"
| "Round (Foreign n rnd s p) = n"

fun Signature :: "Result \<Rightarrow> bytes" where
  "Signature (Canonical rd) = RandomData_Signature rd"
| "Signature (Foreign n rnd s p) = s"

fun Randomness :: "Result \<Rightarrow> bytes" where
  "Randomness (Canonical rd) = RandomData_Randomness rd"
| "Randomness (Foreign n rnd s p) = rnd"

text \<open>
  \<open>chain.Info\<close> and \<open>chain.Beacon\<close> as far as verify.go uses them.  The public key is
  an opaque byte string; \<open>Clone\<close> of a key is a copy that equals it.
\<close>

record Info =
  PublicKey :: bytes
  GroupHash :: bytes

record Beacon =
  PreviousSig :: bytes
  BRound :: "64 word"
  BSignature :: bytes
  SignatureV2 :: bytes

definition Clone :: "bytes \<Rightarrow> bytes" where
  "Clone pk = pk"

text \<open>
  Errors.  \<open>External\<close> is an error produced by a collaborator (fetch client or
  verification primitive), identified by an opaque code; the other constructors are the
  wrappers that verify.go builds with \<open>fmt.Errorf\<close>.
\<close>

datatype error =
    External nat
  | CouldNotGetInfo error
  | CouldNotGetRound "64 word" error
  | VerifyingBeacon error
  | UnexpectedTrustRound "64 word"
  | VerificationV1Failed Beacon error
  | VerificationV2Failed Beacon error

text \<open>
  The \<open>Client\<close> interface: \<open>Get\<close>, \<open>Watch\<close> and \<open>Info\<close> of a collaborator.  A
  collaborator answers the same question the same way each time; \<open>Watch\<close> is the finite
  sequence of items the upstream channel delivers before it is closed.
\<close>

record Client =
  Get :: "64 word \<Rightarrow> error + Result"
  Watch :: "Result list"
  Info :: "error + Info"

text \<open>The primitives of package \<open>chain\<close>; \<open>None\<close> is Go's nil error.\<close>

record chain =
  VerifyBeacon :: "bytes \<Rightarrow> Beacon \<Rightarrow> error option"
  VerifyBeaconV2 :: "bytes \<Rightarrow> Beacon \<Rightarrow> error option"
  RandomnessFromSignature :: "bytes \<Rightarrow> bytes"

text \<open>
  Every call that leaves the verifying client is recorded, in order, in the field
  \<open>calls\<close>: which collaborator was asked, and for what.
\<close>

datatype call =
    CallInfo
  | CallGet "64 word"
  | CallWatch
  | CallIndirectGet "64 word"
  | CallVerifyBeacon bytes Beacon
  | CallVerifyBeaconV2 bytes Beacon

text \<open>
  The struct \<open>verifyingClient\<close>.  The mutex \<open>potLk\<close> has no counterpart in a
  sequential model and the logger is not modelled (a logger is assumed installed).
\<close>

record verifyingClient =
  wrapped :: Client
  indirectClient :: Client
  pointOfTrust :: "Result option"
  strict :: bool
  v2from :: "64 word"
  calls :: "call list"

definition record_call :: "call \<Rightarrow> verifyingClient \<Rightarrow> verifyingClient" where
  "record_call c v = v\<lparr>calls := calls v @ [c]\<rparr>"

definition newVerifyingClient ::
  "Client \<Rightarrow> Result option \<Rightarrow> bool \<Rightarrow> 64 word \<Rightarrow> verifyingClient" where
  "newVerifyingClient c previousResult s v2 =
     \<lparr>wrapped = c, indirectClient = c, pointOfTrust = previousResult,
      strict = s, v2from = v2, calls = []\<rparr>"

section \<open>The adapter \<open>asRandomData\<close> (verify.go lines 92-113)\<close>

fun asRandomData :: "verifyingClient \<Rightarrow> Result \<Rightarrow> RandomData" where
  "asRandomData v (Canonical rd) = rd"
| "asRandomData v (Foreign n rnd s p) =
     (if n \<ge> v2from v
      then \<lparr>Rnd = n, Random = rnd, Sig = [], PreviousSignature = p, SigV2 = s, version = 2\<rparr>
      else \<lparr>Rnd = n, Random = rnd, Sig = s, PreviousSignature = p, SigV2 = [], version = 0\<rparr>)"

section \<open>The trust-chain walk \<open>getTrustedPreviousSignature\<close> (verify.go lines 115-174)\<close>

text \<open>
  The loop of lines 146-163.  Its state is \<open>trustRound\<close>, \<open>trustPrevSig\<close> and \<open>next\<close>;
  it either leaves through one of the two \<open>return\<close>s inside the body or falls out at the
  bottom with the final loop state.
\<close>

function walk_loop ::
  "chain \<Rightarrow> Info \<Rightarrow> 64 word \<Rightarrow> verifyingClient \<Rightarrow> 64 word \<Rightarrow> bytes \<Rightarrow> Result option
     \<Rightarrow> (error + 64 word \<times> bytes \<times> Result option) \<times> verifyingClient" where
  "walk_loop ch info round v trustRound trustPrevSig next =
     (if trustRound < round - 1 then
        (let trustRound' = trustRound + 1;
             v1 = record_call (CallIndirectGet trustRound') v
         in case Get (indirectClient v) trustRound' of
              Inl err \<Rightarrow> (Inl (CouldNotGetRound trustRound' err), v1)
            | Inr nxt \<Rightarrow>
                (let b = \<lparr>PreviousSig = trustPrevSig, BRound = trustRound',
                          BSignature = Signature nxt, SignatureV2 = []\<rparr>;
                     ipk = Clone (PublicKey info);
                     v2 = record_call (CallVerifyBeacon ipk b) v1
                 in case VerifyBeacon ch ipk b of
                      Some err \<Rightarrow> (Inl (VerifyingBeacon err), v2)
                    | None \<Rightarrow> walk_loop ch info round v2 trustRound' (Signature nxt) (Some nxt)))
      else (Inr (trustRound, trustPrevSig, next), v))"
  by pat_completeness auto


termination walk_loop
proof (relation "measure (\<lambda>(ch, info, round, v, trustRound, trustPrevSig, next).
                   unat (round - 1) - unat trustRound)", goal_cases)
  case 1
  show ?case by simp
next
  case (2 ch info round v trustRound trustPrevSig nx trustRound1 v1 nxt b ipk v2)
  from \<open>trustRound < round - 1\<close>
  have "unat (round - 1) - unat (trustRound + 1) < unat (round - 1) - unat trustRound"
    by unat_arith
  with 2 show ?case by simp
qed

declare walk_loop.simps [simp del]

text \<open>
  Lines 143-173: run the loop from the chosen anchor, commit the point of trust when
  the loop advanced and landed on \<open>round - 1\<close>, and return the anchor signature or the
  "unexpected trust round" error.
\<close>

definition walk_from ::
  "chain \<Rightarrow> Info \<Rightarrow> 64 word \<Rightarrow> verifyingClient \<Rightarrow> 64 word \<Rightarrow> bytes
     \<Rightarrow> (error + bytes) \<times> verifyingClient" where
  "walk_from ch info round v trustRound0 trustPrevSig0 =
     (let initialTrustRound = trustRound0
      in case walk_loop ch info round v trustRound0 trustPrevSig0 None of
           (Inl err, v') \<Rightarrow> (Inl err, v')
         | (Inr (trustRound, trustPrevSig, next), v') \<Rightarrow>
             (let v'' = (if trustRound = round - 1 \<and> trustRound > initialTrustRound
                         then v'\<lparr>pointOfTrust := next\<rparr> else v')
              in if trustRound \<noteq> round - 1
                 then (Inl (UnexpectedTrustRound trustRound), v'')
                 else (Inr trustPrevSig, v'')))"

text \<open>
  The function itself.  The slow path of lines 131-137 calls the function again with
  round 1, as the source does; that call returns before it can recurse further.
\<close>

function getTrustedPreviousSignature ::
  "chain \<Rightarrow> verifyingClient \<Rightarrow> 64 word \<Rightarrow> (error + bytes) \<times> verifyingClient" where
  "getTrustedPreviousSignature ch v round =
     (let v0 = record_call CallInfo v
      in case Info (indirectClient v) of
           Inl err \<Rightarrow> (Inl (CouldNotGetInfo err), v0)
         | Inr info \<Rightarrow>
             if round = 1 then (Inr (GroupHash info), v0)
             else (case pointOfTrust v0 of
                     None \<Rightarrow>
                       (case getTrustedPreviousSignature ch v0 1 of
                          (Inl err, v1) \<Rightarrow> (Inl err, v1)
                        | (Inr trustPrevSig, v1) \<Rightarrow> walk_from ch info round v1 1 trustPrevSig)
                   | Some pot \<Rightarrow>
                       if Round pot > round
                       then (case getTrustedPreviousSignature ch v0 1 of
                               (Inl err, v1) \<Rightarrow> (Inl err, v1)
                             | (Inr trustPrevSig, v1) \<Rightarrow> walk_from ch info round v1 1 trustPrevSig)
                       else walk_from ch info round v0 (Round pot) (Signature pot)))"
  by pat_completeness auto

termination getTrustedPreviousSignature
  by (relation "measure (\<lambda>(ch, v, round). if round = 1 then 0 else 1)") simp_all

declare getTrustedPreviousSignature.simps [simp del]

section \<open>\<open>verify\<close> (verify.go lines 176-209)\<close>

definition nil_or :: "bytes option \<Rightarrow> bytes" where
  "nil_or p = (case p of None \<Rightarrow> [] | Some b \<Rightarrow> b)"

text \<open>
  \<open>verify\<close> mutates \<open>r.Random\<close> in place and returns an error or nil; the model returns
  the error or the updated record.
\<close>

definition verify ::
  "chain \<Rightarrow> verifyingClient \<Rightarrow> Info \<Rightarrow> RandomData \<Rightarrow> (error + RandomData) \<times> verifyingClient" where
  "verify ch v info r =
     (case (if RandomData_Round r < v2from v \<and> (strict v \<or> PreviousSignature r = None)
            then getTrustedPreviousSignature ch v (RandomData_Round r)
            else (Inr (nil_or (PreviousSignature r)), v)) of
        (Inl err, v1) \<Rightarrow> (Inl err, v1)
      | (Inr ps, v1) \<Rightarrow>
          (let ipk = Clone (PublicKey info)
           in if RandomData_Round r \<ge> v2from v1 then
                (let b = \<lparr>PreviousSig = ps, BRound = RandomData_Round r,
                          BSignature = [], SignatureV2 = SigV2 r\<rparr>;
                     v2 = record_call (CallVerifyBeaconV2 ipk b) v1
                 in case VerifyBeaconV2 ch ipk b of
                      Some err \<Rightarrow> (Inl (VerificationV2Failed b err), v2)
                    | None \<Rightarrow> (Inr (r\<lparr>Random := RandomnessFromSignature ch (SigV2 r)\<rparr>), v2))
              else
                (let b = \<lparr>PreviousSig = ps, BRound = RandomData_Round r,
                          BSignature = RandomData_Signature r, SignatureV2 = []\<rparr>;
                     v2 = record_call (CallVerifyBeacon ipk b) v1
                 in case VerifyBeacon ch ipk b of
                      Some err \<Rightarrow> (Inl (VerificationV1Failed b err), v2)
                    | None \<Rightarrow> (Inr (r\<lparr>Random := RandomnessFromSignature ch (Sig r)\<rparr>), v2))))"

section \<open>\<open>Get\<close> and \<open>Watch\<close> of the verifying client (verify.go lines 46-86)\<close>

definition verifyingClient_Get ::
  "chain \<Rightarrow> verifyingClient \<Rightarrow> 64 word \<Rightarrow> (error + RandomData) \<times> verifyingClient" where
  "verifyingClient_Get ch v round =
     (let v0 = record_call CallInfo v
      in case Info (indirectClient v) of
           Inl err \<Rightarrow> (Inl err, v0)
         | Inr info \<Rightarrow>
             (let v1 = record_call (CallGet round) v0
              in case Get (wrapped v) round of
                   Inl err \<Rightarrow> (Inl err, v1)
                 | Inr r \<Rightarrow>
                     (let rd = asRandomData v1 r
                      in case verify ch v1 info rd of
                           (Inl err, v2) \<Rightarrow> (Inl err, v2)
                         | (Inr rd', v2) \<Rightarrow> (Inr rd', v2))))"

text \<open>
  What \<open>outCh <- r\<close> (line 82) delivers.  The channel carries \<open>r\<close>, not the adapted
  record: when \<open>r\<close> is a \<open>*RandomData\<close> the adapter returned the same pointer, so the
  receiver sees the record as \<open>verify\<close> left it; any other \<open>r\<close> is untouched.
\<close>

fun forwarded :: "Result \<Rightarrow> RandomData \<Rightarrow> Result" where
  "forwarded (Canonical rd) rd' = Canonical rd'"
| "forwarded (Foreign n rnd s p) rd' = Foreign n rnd s p"

text \<open>
  The goroutine of lines 75-84 over the items of the upstream channel; the output
  channel is closed when the input is exhausted.
\<close>

fun watch_loop ::
  "chain \<Rightarrow> Info \<Rightarrow> verifyingClient \<Rightarrow> Result list \<Rightarrow> Result list \<times> verifyingClient" where
  "watch_loop ch info v [] = ([], v)"
| "watch_loop ch info v (r # inCh) =
     (case verify ch v info (asRandomData v r) of
        (Inl err, v') \<Rightarrow> watch_loop ch info v' inCh
      | (Inr rd', v') \<Rightarrow>
          (case watch_loop ch info v' inCh of
             (outCh, v'') \<Rightarrow> (forwarded r rd' # outCh, v'')))"

definition verifyingClient_Watch ::
  "chain \<Rightarrow> verifyingClient \<Rightarrow> Result list \<times> verifyingClient" where
  "verifyingClient_Watch ch v =
     (let v0 = record_call CallInfo v
      in case Info (indirectClient v) of
           Inl err \<Rightarrow> ([], v0)
         | Inr info \<Rightarrow>
             (let v1 = record_call CallWatch v0
              in watch_loop ch info v1 (Watch (wrapped v))))"


section \<open>Notions used to state the properties\<close>

text \<open>The calls an operation made: the part of \<open>calls\<close> added between two states.\<close>

definition new_calls :: "verifyingClient \<Rightarrow> verifyingClient \<Rightarrow> call list" where
  "new_calls v v' = drop (length (calls v)) (calls v')"

definition calls_extend ::
  "verifyingClient \<Rightarrow> (call \<Rightarrow> bool) \<Rightarrow> verifyingClient \<Rightarrow> bool" where
  "calls_extend v ok v' \<longleftrightarrow> (\<exists>tr. calls v' = calls v @ tr \<and> list_all ok tr)"

definition same_config :: "verifyingClient \<Rightarrow> verifyingClient \<Rightarrow> bool" where
  "same_config v v' \<longleftrightarrow>
     wrapped v' = wrapped v \<and> indirectClient v' = indirectClient v \<and>
     strict v' = strict v \<and> v2from v' = v2from v"

text \<open>A call of the walk's loop for a round in the half-open interval \<open>(lo, hi]\<close>.\<close>

fun walk_call_within :: "64 word \<Rightarrow> 64 word \<Rightarrow> call \<Rightarrow> bool" where
  "walk_call_within lo hi (CallIndirectGet n) = (lo < n \<and> n \<le> hi)"
| "walk_call_within lo hi (CallVerifyBeacon pk b) = (lo < BRound b \<and> BRound b \<le> hi)"
| "walk_call_within lo hi c = False"


fun is_primitive_call :: "call \<Rightarrow> bool" where
  "is_primitive_call (CallVerifyBeacon pk b) = True"
| "is_primitive_call (CallVerifyBeaconV2 pk b) = True"
| "is_primitive_call c = False"

fun is_v2_call :: "call \<Rightarrow> bool" where
  "is_v2_call (CallVerifyBeaconV2 pk b) = True"
| "is_v2_call c = False"

text \<open>The errors the walk can return.\<close>

fun is_walk_error :: "error \<Rightarrow> bool" where
  "is_walk_error (CouldNotGetInfo e) = True"
| "is_walk_error (CouldNotGetRound n e) = True"
| "is_walk_error (VerifyingBeacon e) = True"
| "is_walk_error (UnexpectedTrustRound n) = True"
| "is_walk_error e = False"

text \<open>The round the walk starts from (lines 126-142).\<close>

definition anchor :: "verifyingClient \<Rightarrow> 64 word \<Rightarrow> 64 word" where
  "anchor v round =
     (case pointOfTrust v of None \<Rightarrow> 1
      | Some pot \<Rightarrow> if Round pot > round then 1 else Round pot)"

text \<open>The condition of line 131 under which the walk restarts from genesis.\<close>

definition slow_path :: "verifyingClient \<Rightarrow> 64 word \<Rightarrow> bool" where
  "slow_path v round \<longleftrightarrow>
     (case pointOfTrust v of None \<Rightarrow> True | Some pot \<Rightarrow> Round pot > round)"

text \<open>The condition of line 178 under which \<open>verify\<close> calls the walk.\<close>

definition walks :: "verifyingClient \<Rightarrow> RandomData \<Rightarrow> bool" where
  "walks v r \<longleftrightarrow>
     RandomData_Round r < v2from v \<and> (strict v \<or> PreviousSignature r = None)"

text \<open>Lines 185-208 of \<open>verify\<close>: the check once the previous signature \<open>ps\<close> is known.\<close>

definition verify_link ::
  "chain \<Rightarrow> verifyingClient \<Rightarrow> Info \<Rightarrow> RandomData \<Rightarrow> bytes
     \<Rightarrow> (error + RandomData) \<times> verifyingClient" where
  "verify_link ch v1 info r ps =
     (let ipk = Clone (PublicKey info)
      in if RandomData_Round r \<ge> v2from v1 then
           (let b = \<lparr>PreviousSig = ps, BRound = RandomData_Round r,
                     BSignature = [], SignatureV2 = SigV2 r\<rparr>;
                v2 = record_call (CallVerifyBeaconV2 ipk b) v1
            in case VerifyBeaconV2 ch ipk b of
                 Some err \<Rightarrow> (Inl (VerificationV2Failed b err), v2)
               | None \<Rightarrow> (Inr (r\<lparr>Random := RandomnessFromSignature ch (SigV2 r)\<rparr>), v2))
         else
           (let b = \<lparr>PreviousSig = ps, BRound = RandomData_Round r,
                     BSignature = RandomData_Signature r, SignatureV2 = []\<rparr>;
                v2 = record_call (CallVerifyBeacon ipk b) v1
            in case VerifyBeacon ch ipk b of
                 Some err \<Rightarrow> (Inl (VerificationV1Failed b err), v2)
               | None \<Rightarrow> (Inr (r\<lparr>Random := RandomnessFromSignature ch (Sig r)\<rparr>), v2)))"





text \<open>
  The stream property in the spec's words: the verdict of each upstream item, in input
  order (each item is verified in the state its predecessors left), the items that
  pass, and the value the receiver sees for an item that passed.
\<close>

fun verdicts :: "chain \<Rightarrow> Info \<Rightarrow> verifyingClient \<Rightarrow> Result list \<Rightarrow> bool list" where
  "verdicts ch info v [] = []"
| "verdicts ch info v (r # inCh) =
     (case verify ch v info (asRandomData v r) of
        (Inl err, v') \<Rightarrow> False # verdicts ch info v' inCh
      | (Inr rd', v') \<Rightarrow> True # verdicts ch info v' inCh)"

definition passing :: "chain \<Rightarrow> Info \<Rightarrow> verifyingClient \<Rightarrow> Result list \<Rightarrow> Result list" where
  "passing ch info v inCh = map fst (filter snd (zip inCh (verdicts ch info v inCh)))"

fun delivered :: "chain \<Rightarrow> verifyingClient \<Rightarrow> Result \<Rightarrow> Result" where
  "delivered ch v (Canonical rd) =
     Canonical (rd\<lparr>Random := RandomnessFromSignature ch
                  (if RandomData_Round rd \<ge> v2from v then SigV2 rd else Sig rd)\<rparr>)"
| "delivered ch v (Foreign n rnd s p) = Foreign n rnd s p"

subsection \<open>A small chain to run the definitions on\<close>

definition ex_info :: Info where
  "ex_info = \<lparr>PublicKey = [7], GroupHash = [0]\<rparr>"

definition ex_sig :: "64 word \<Rightarrow> bytes" where
  "ex_sig n = [ucast n]"

text \<open>A non-canonical result whose randomness bytes (255) are not derived from its signature.\<close>

definition ex_result :: "64 word \<Rightarrow> Result" where
  "ex_result n = Foreign n [255] (ex_sig n) None"

definition ex_client :: Client where
  "ex_client = \<lparr>Get = (\<lambda>n. Inr (ex_result n)),
                 Watch = [ex_result 1, Foreign 2 [255] [] None, ex_result 3],
                 Info = Inr ex_info\<rparr>"

definition ex_offline :: Client where
  "ex_offline = \<lparr>Get = (\<lambda>n. Inr (ex_result n)),
                  Watch = [ex_result 1],
                  Info = Inl (External 503)\<rparr>"

text \<open>A collaborator that serves rounds 1 to 3 only.\<close>

definition ex_short :: Client where
  "ex_short = \<lparr>Get = (\<lambda>n. if n \<le> 3 then Inr (ex_result n) else Inl (External 404)),
                Watch = [],
                Info = Inr ex_info\<rparr>"

definition ex_chain :: chain where
  "ex_chain =
     \<lparr>VerifyBeacon =
        (\<lambda>pk b. if BSignature b = ex_sig (BRound b) then None else Some (External 1)),
      VerifyBeaconV2 =
        (\<lambda>pk b. if SignatureV2 b = ex_sig (BRound b) then None else Some (External 2)),
      RandomnessFromSignature = (\<lambda>s. s @ s)\<rparr>"

text \<open>A canonical round-3 record that carries a previous-signature hint.\<close>

definition ex_hinted :: RandomData where
  "ex_hinted = \<lparr>Rnd = 3, Random = [255], Sig = [3], PreviousSignature = Some [2], SigV2 = [], version = 0\<rparr>"





section \<open>The loop of the walk\<close>

lemma word64_step_bounds:
  "(t :: 64 word) < lim \<Longrightarrow> t < t + 1 \<and> t + 1 \<le> lim"
  by unat_arith

lemma walk_call_within_mono:
  "walk_call_within lo hi c \<Longrightarrow> lo' \<le> lo \<Longrightarrow> walk_call_within lo' hi c"
  by (cases c) auto

lemma walk_loop_stop:
  "\<not> t < round - 1 \<Longrightarrow> walk_loop ch info round v t p nx = (Inr (t, p, nx), v)"
  by (simp add: walk_loop.simps Let_def)

lemma walk_loop_fetch_fails:
  "t < round - 1 \<Longrightarrow> Get (indirectClient v) (t + 1) = Inl err \<Longrightarrow>
   walk_loop ch info round v t p nx =
     (Inl (CouldNotGetRound (t + 1) err), record_call (CallIndirectGet (t + 1)) v)"
  by (simp add: walk_loop.simps Let_def)

lemma walk_loop_link_fails:
  "t < round - 1 \<Longrightarrow> Get (indirectClient v) (t + 1) = Inr nxt \<Longrightarrow>
   b = \<lparr>PreviousSig = p, BRound = t + 1, BSignature = Signature nxt, SignatureV2 = []\<rparr> \<Longrightarrow>
   VerifyBeacon ch (Clone (PublicKey info)) b = Some err \<Longrightarrow>
   walk_loop ch info round v t p nx =
     (Inl (VerifyingBeacon err),
      record_call (CallVerifyBeacon (Clone (PublicKey info)) b)
        (record_call (CallIndirectGet (t + 1)) v))"
  by (simp add: walk_loop.simps Let_def)

lemma walk_loop_step:
  "t < round - 1 \<Longrightarrow> Get (indirectClient v) (t + 1) = Inr nxt \<Longrightarrow>
   b = \<lparr>PreviousSig = p, BRound = t + 1, BSignature = Signature nxt, SignatureV2 = []\<rparr> \<Longrightarrow>
   VerifyBeacon ch (Clone (PublicKey info)) b = None \<Longrightarrow>
   walk_loop ch info round v t p nx =
     walk_loop ch info round
       (record_call (CallVerifyBeacon (Clone (PublicKey info)) b)
         (record_call (CallIndirectGet (t + 1)) v))
       (t + 1) (Signature nxt) (Some nxt)"
  by (simp add: walk_loop.simps[of ch info round v] Let_def)

lemma walk_loop_cases [case_names stop fetch_fails link_fails step]:
  assumes "\<And>v t p nx. \<not> t < round - 1 \<Longrightarrow> P v t p nx (Inr (t, p, nx), v)"
    and "\<And>v t p nx err. t < round - 1 \<Longrightarrow> Get (indirectClient v) (t + 1) = Inl err \<Longrightarrow>
           P v t p nx (Inl (CouldNotGetRound (t + 1) err), record_call (CallIndirectGet (t + 1)) v)"
    and "\<And>v t p nx nxt err. t < round - 1 \<Longrightarrow> Get (indirectClient v) (t + 1) = Inr nxt \<Longrightarrow>
           VerifyBeacon ch (Clone (PublicKey info))
             \<lparr>PreviousSig = p, BRound = t + 1, BSignature = Signature nxt, SignatureV2 = []\<rparr> = Some err \<Longrightarrow>
           P v t p nx (Inl (VerifyingBeacon err),
             record_call (CallVerifyBeacon (Clone (PublicKey info))
               \<lparr>PreviousSig = p, BRound = t + 1, BSignature = Signature nxt, SignatureV2 = []\<rparr>)
               (record_call (CallIndirectGet (t + 1)) v))"
    and "\<And>v t p nx nxt res. t < round - 1 \<Longrightarrow> Get (indirectClient v) (t + 1) = Inr nxt \<Longrightarrow>
           VerifyBeacon ch (Clone (PublicKey info))
             \<lparr>PreviousSig = p, BRound = t + 1, BSignature = Signature nxt, SignatureV2 = []\<rparr> = None \<Longrightarrow>
           P (record_call (CallVerifyBeacon (Clone (PublicKey info))
               \<lparr>PreviousSig = p, BRound = t + 1, BSignature = Signature nxt, SignatureV2 = []\<rparr>)
               (record_call (CallIndirectGet (t + 1)) v)) (t + 1) (Signature nxt) (Some nxt) res \<Longrightarrow>
           P v t p nx res"
  shows "P v t p nx (walk_loop ch info round v t p nx)"
  using assms
proof (induction ch info round v t p nx rule: walk_loop.induct)
  case (1 ch info round v t p nx)
  note stop = "1.prems"(1) and ff = "1.prems"(2) and lf = "1.prems"(3) and st = "1.prems"(4)
  show ?case
  proof (cases "t < round - 1")
    case False
    then show ?thesis by (simp add: walk_loop_stop stop)
  next
    case True
    show ?thesis
    proof (cases "Get (indirectClient v) (t + 1)")
      case (Inl err)
      with True show ?thesis by (simp add: walk_loop_fetch_fails ff)
    next
      case (Inr nxt)
      let ?b = "\<lparr>PreviousSig = p, BRound = t + 1, BSignature = Signature nxt, SignatureV2 = []\<rparr>"
      show ?thesis
      proof (cases "VerifyBeacon ch (Clone (PublicKey info)) ?b")
        case (Some err)
        with True Inr show ?thesis by (simp add: walk_loop_link_fails lf)
      next
        case None
        show ?thesis
          unfolding walk_loop_step[OF True Inr refl None]
          by (rule st[OF True Inr None]) (rule "1.IH"[OF True refl refl Inr refl refl refl None stop ff lf st])
      qed
    qed
  qed
qed




lemma calls_extend_refl: "calls_extend v ok v"
  by (simp add: calls_extend_def)

lemma calls_extend_record:
  "ok c \<Longrightarrow> calls_extend (record_call c v) ok v' \<Longrightarrow> calls_extend v ok v'"
  by (auto simp: calls_extend_def record_call_def)

lemma calls_extend_trans:
  "calls_extend v ok v' \<Longrightarrow> calls_extend v' ok v'' \<Longrightarrow> calls_extend v ok v''"
  by (auto simp: calls_extend_def)

lemma calls_extend_mono:
  "calls_extend v ok v' \<Longrightarrow> (\<And>c. ok c \<Longrightarrow> ok' c) \<Longrightarrow> calls_extend v ok' v'"
  by (auto simp: calls_extend_def list_all_iff)

lemma same_config_refl: "same_config v v"
  by (simp add: same_config_def)

lemma same_config_record_call [simp]:
  "same_config (record_call c v) v' = same_config v v'"
  "same_config v (record_call c v') = same_config v v'"
  by (simp_all add: same_config_def record_call_def)

lemma pointOfTrust_record_call: "pointOfTrust (record_call c v) = pointOfTrust v"
  by (simp add: record_call_def)

lemma walk_loop_effects:
  "same_config v (snd (walk_loop ch info round v t p nx)) \<and>
   pointOfTrust (snd (walk_loop ch info round v t p nx)) = pointOfTrust v \<and>
   calls_extend v (walk_call_within t (round - 1)) (snd (walk_loop ch info round v t p nx))"
proof (rule walk_loop_cases[where P = "\<lambda>v t p nx rv.
     same_config v (snd rv) \<and> pointOfTrust (snd rv) = pointOfTrust v \<and>
     calls_extend v (walk_call_within t (round - 1)) (snd rv)"], goal_cases)
  case (1 v t p nx)
  show ?case by (simp add: same_config_refl calls_extend_refl)
next
  case (2 v t p nx err)
  have "walk_call_within t (round - 1) (CallIndirectGet (t + 1))"
    using word64_step_bounds[OF 2(1)] by simp
  then show ?case
    by (simp add: same_config_refl pointOfTrust_record_call
          calls_extend_record[OF _ calls_extend_refl])
next
  case (3 v t p nx nxt err)
  have "walk_call_within t (round - 1) (CallIndirectGet (t + 1))"
    and "walk_call_within t (round - 1) (CallVerifyBeacon (Clone (PublicKey info))
          \<lparr>PreviousSig = p, BRound = t + 1, BSignature = Signature nxt, SignatureV2 = []\<rparr>)"
    using word64_step_bounds[OF 3(1)] by simp_all
  then show ?case
    by (simp add: same_config_refl pointOfTrust_record_call
          calls_extend_record[OF _ calls_extend_record[OF _ calls_extend_refl]])
next
  case (4 v t p nx nxt res)
  have b: "t < t + 1" "t + 1 \<le> round - 1"
    using word64_step_bounds[OF 4(1)] by simp_all
  have w: "walk_call_within t (round - 1) (CallIndirectGet (t + 1))"
    "walk_call_within t (round - 1) (CallVerifyBeacon (Clone (PublicKey info))
          \<lparr>PreviousSig = p, BRound = t + 1, BSignature = Signature nxt, SignatureV2 = []\<rparr>)"
    using b by simp_all
  have "calls_extend (record_call (CallVerifyBeacon (Clone (PublicKey info))
          \<lparr>PreviousSig = p, BRound = t + 1, BSignature = Signature nxt, SignatureV2 = []\<rparr>)
          (record_call (CallIndirectGet (t + 1)) v)) (walk_call_within t (round - 1)) (snd res)"
    using 4(4) b by (auto elim!: calls_extend_mono intro: walk_call_within_mono less_imp_le)
  then have "calls_extend v (walk_call_within t (round - 1)) (snd res)"
    using w by (blast intro: calls_extend_record)
  then show ?case
    using 4(4) by (simp add: pointOfTrust_record_call)
qed




subsection \<open>The walk after the anchor is chosen\<close>

lemma walk_from_no_loop:
  "\<not> t0 < round - 1 \<Longrightarrow>
   walk_from ch info round v t0 p0 =
     (if t0 \<noteq> round - 1 then (Inl (UnexpectedTrustRound t0), v) else (Inr p0, v))"
  by (simp add: walk_from_def walk_loop_stop)

lemma walk_from_effects:
  "same_config v (snd (walk_from ch info round v t0 p0)) \<and>
   calls_extend v (walk_call_within t0 (round - 1)) (snd (walk_from ch info round v t0 p0))"
proof -
  obtain res v' where w: "walk_loop ch info round v t0 p0 None = (res, v')"
    by (cases "walk_loop ch info round v t0 p0 None")
  have "same_config v v'" "calls_extend v (walk_call_within t0 (round - 1)) v'"
    using walk_loop_effects[of v ch info round t0 p0 None] w by simp_all
  then show ?thesis
    using w by (cases res)
      (auto simp: walk_from_def Let_def same_config_def calls_extend_def split: prod.splits)
qed

lemma walk_from_error_keeps_pointOfTrust:
  "fst (walk_from ch info round v t0 p0) = Inl err \<Longrightarrow>
   pointOfTrust (snd (walk_from ch info round v t0 p0)) = pointOfTrust v"
proof -
  assume e: "fst (walk_from ch info round v t0 p0) = Inl err"
  obtain res v' where w: "walk_loop ch info round v t0 p0 None = (res, v')"
    by (cases "walk_loop ch info round v t0 p0 None")
  have "pointOfTrust v' = pointOfTrust v"
    using walk_loop_effects[of v ch info round t0 p0 None] w by simp
  then show ?thesis
    using w e by (cases res) (auto simp: walk_from_def Let_def split: prod.splits if_splits)
qed



subsection \<open>The three ways through \<open>getTrustedPreviousSignature\<close>\<close>

lemma getTrustedPreviousSignature_no_info:
  "Info (indirectClient v) = Inl err \<Longrightarrow>
   getTrustedPreviousSignature ch v round = (Inl (CouldNotGetInfo err), record_call CallInfo v)"
  by (simp add: getTrustedPreviousSignature.simps)

lemma getTrustedPreviousSignature_genesis:
  "Info (indirectClient v) = Inr info \<Longrightarrow>
   getTrustedPreviousSignature ch v 1 = (Inr (GroupHash info), record_call CallInfo v)"
  by (simp add: getTrustedPreviousSignature.simps)

lemma getTrustedPreviousSignature_slow:
  "Info (indirectClient v) = Inr info \<Longrightarrow> round \<noteq> 1 \<Longrightarrow> slow_path v round \<Longrightarrow>
   getTrustedPreviousSignature ch v round =
     walk_from ch info round (record_call CallInfo (record_call CallInfo v)) 1 (GroupHash info)"
  by (subst getTrustedPreviousSignature.simps)
     (simp add: slow_path_def getTrustedPreviousSignature_genesis record_call_def
           split: option.splits)

lemma getTrustedPreviousSignature_cached:
  "Info (indirectClient v) = Inr info \<Longrightarrow> round \<noteq> 1 \<Longrightarrow>
   pointOfTrust v = Some pot \<Longrightarrow> \<not> Round pot > round \<Longrightarrow>
   getTrustedPreviousSignature ch v round =
     walk_from ch info round (record_call CallInfo v) (Round pot) (Signature pot)"
  by (subst getTrustedPreviousSignature.simps) (simp add: record_call_def)

lemma getTrustedPreviousSignature_cases [case_names no_info genesis slow cached]:
  assumes "\<And>err. Info (indirectClient v) = Inl err \<Longrightarrow>
             P (Inl (CouldNotGetInfo err), record_call CallInfo v)"
    and "\<And>info. Info (indirectClient v) = Inr info \<Longrightarrow> round = 1 \<Longrightarrow>
             P (Inr (GroupHash info), record_call CallInfo v)"
    and "\<And>info. Info (indirectClient v) = Inr info \<Longrightarrow> round \<noteq> 1 \<Longrightarrow> slow_path v round \<Longrightarrow>
             P (walk_from ch info round (record_call CallInfo (record_call CallInfo v)) 1
                  (GroupHash info))"
    and "\<And>info pot. Info (indirectClient v) = Inr info \<Longrightarrow> round \<noteq> 1 \<Longrightarrow>
             pointOfTrust v = Some pot \<Longrightarrow> \<not> Round pot > round \<Longrightarrow>
             P (walk_from ch info round (record_call CallInfo v) (Round pot) (Signature pot))"
  shows "P (getTrustedPreviousSignature ch v round)"
proof (cases "Info (indirectClient v)")
  case (Inl err)
  then show ?thesis by (simp add: getTrustedPreviousSignature_no_info assms(1))
next
  case (Inr info)
  show ?thesis
  proof (cases "round = 1")
    case True
    with Inr show ?thesis by (simp add: getTrustedPreviousSignature_genesis assms(2))
  next
    case False
    show ?thesis
    proof (cases "slow_path v round")
      case True
      with Inr False show ?thesis by (simp add: getTrustedPreviousSignature_slow assms(3))
    next
      case nslow: False
      then obtain pot where "pointOfTrust v = Some pot" "\<not> Round pot > round"
        by (auto simp: slow_path_def split: option.splits)
      with Inr False show ?thesis by (simp add: getTrustedPreviousSignature_cached assms(4))
    qed
  qed
qed


section \<open>Running the definitions\<close>

lemmas ex_defs = ex_info_def ex_sig_def ex_result_def ex_client_def ex_offline_def ex_chain_def
  ex_short_def newVerifyingClient_def

lemmas run_defs = getTrustedPreviousSignature.simps walk_from_def walk_loop.simps verify_def
  verifyingClient_Get_def verifyingClient_Watch_def record_call_def new_calls_def Let_def
  Clone_def RandomData_Round_def RandomData_Signature_def nil_or_def

lemma new_calls_append [simp]: "calls v' = calls v @ tr \<Longrightarrow> new_calls v v' = tr"
  by (simp add: new_calls_def)

lemma new_calls_record_call [simp]: "new_calls v (record_call c v) = [c]"
  by (simp add: new_calls_def record_call_def)

section \<open>Failure of the metadata fetch\<close>

text \<open>
  Claim C7.  If fetching the chain information fails, \<open>Get\<close> returns that error and
  \<open>Watch\<close> returns a closed, empty stream; in both cases the only call made is the
  \<open>Info\<close> call itself, so the requested round is not fetched and the upstream watch is
  not subscribed.
\<close>

theorem info_failure_fails_closed:
  assumes "Info (indirectClient v) = Inl err"
  shows "verifyingClient_Get ch v round = (Inl err, record_call CallInfo v) \<and>
         verifyingClient_Watch ch v = ([], record_call CallInfo v) \<and>
         new_calls v (snd (verifyingClient_Get ch v round)) = [CallInfo] \<and>
         new_calls v (snd (verifyingClient_Watch ch v)) = [CallInfo]"
  using assms by (simp add: verifyingClient_Get_def verifyingClient_Watch_def)

theorem info_failure_fails_closed_witness:
  "fst (verifyingClient_Get ex_chain (newVerifyingClient ex_offline None True 10) 3)
     = Inl (External 503) \<and>
   fst (verifyingClient_Watch ex_chain (newVerifyingClient ex_offline None True 10)) = [] \<and>
   new_calls (newVerifyingClient ex_offline None True 10)
     (snd (verifyingClient_Watch ex_chain (newVerifyingClient ex_offline None True 10))) = [CallInfo]"
  using info_failure_fails_closed
    [of "newVerifyingClient ex_offline None True 10" "External 503" ex_chain 3]
  by (simp add: ex_defs)

section \<open>The point of trust on the error paths of the walk\<close>

lemma walk_error_keeps_cache_aux:
  "fst (getTrustedPreviousSignature ch v round) = Inl err \<longrightarrow>
   pointOfTrust (snd (getTrustedPreviousSignature ch v round)) = pointOfTrust v"
proof (rule getTrustedPreviousSignature_cases[where P = "\<lambda>rv.
         fst rv = Inl err \<longrightarrow> pointOfTrust (snd rv) = pointOfTrust v"], goal_cases)
  case (3 info)
  show ?case
    using walk_from_error_keeps_pointOfTrust
      [of ch info round "record_call CallInfo (record_call CallInfo v)" 1 "GroupHash info" err]
    by (simp add: pointOfTrust_record_call)
next
  case (4 info pot)
  show ?case
    using walk_from_error_keeps_pointOfTrust
      [of ch info round "record_call CallInfo v" "Round pot" "Signature pot" err]
    by (simp add: pointOfTrust_record_call)
qed (simp_all add: pointOfTrust_record_call)

text \<open>
  Claim C6.  Whenever the walk returns an error, whichever one, the point of trust is
  what it was before the call; and the loop, however it ends, never writes it: the only
  write is the commit after the loop.
\<close>

theorem walk_error_leaves_pointOfTrust:
  "(fst (getTrustedPreviousSignature ch v round) = Inl err \<longrightarrow>
      pointOfTrust (snd (getTrustedPreviousSignature ch v round)) = pointOfTrust v) \<and>
   pointOfTrust (snd (walk_loop ch info round v t p nx)) = pointOfTrust v"
  using walk_error_keeps_cache_aux[of ch v round err] walk_loop_effects[of v ch info round t p nx]
  by blast

text \<open>
  With the point of trust at round 2 and target 6, round 3 is fetched and verified and
  round 4 cannot be fetched: the point of trust is still round 2.
\<close>

theorem walk_error_leaves_pointOfTrust_witness:
  "fst (getTrustedPreviousSignature ex_chain
          (newVerifyingClient ex_short (Some (ex_result 2)) True 10) 6)
     = Inl (CouldNotGetRound 4 (External 404)) \<and>
   pointOfTrust (snd (getTrustedPreviousSignature ex_chain
          (newVerifyingClient ex_short (Some (ex_result 2)) True 10) 6))
     = Some (ex_result 2)"
proof -
  let ?v = "newVerifyingClient ex_short (Some (ex_result 2)) True 10"
  have f: "fst (getTrustedPreviousSignature ex_chain ?v 6)
             = Inl (CouldNotGetRound 4 (External 404))"
    by (simp add: run_defs ex_defs)
  from walk_error_leaves_pointOfTrust
         [of ex_chain ?v 6 "CouldNotGetRound 4 (External 404)" ex_info 2 "[2]" None] f
  have "pointOfTrust (snd (getTrustedPreviousSignature ex_chain ?v 6)) = pointOfTrust ?v"
    by blast
  with f show ?thesis
    by (simp add: newVerifyingClient_def)
qed

section \<open>A point of trust at the requested round\<close>

text \<open>
  Claim C10, as the code has it.  When the chain information can be fetched, the
  requested round \<open>r\<close> is at least 2 and the point of trust holds a result of round
  exactly \<open>r\<close>, the walk returns the "unexpected trust round" error; the only call it
  made is the \<open>Info\<close> call (no round fetched, no primitive invoked) and the point of
  trust is untouched.
\<close>

theorem cached_round_equal_to_target:
  assumes "Info (indirectClient v) = Inr info"
    and "pointOfTrust v = Some pot" and "Round pot = r" and "2 \<le> r"
  shows "getTrustedPreviousSignature ch v r =
           (Inl (UnexpectedTrustRound r), record_call CallInfo v) \<and>
         new_calls v (snd (getTrustedPreviousSignature ch v r)) = [CallInfo] \<and>
         pointOfTrust (snd (getTrustedPreviousSignature ch v r)) = pointOfTrust v"
proof -
  from \<open>2 \<le> r\<close> have r1: "r \<noteq> 1" by unat_arith
  from \<open>2 \<le> r\<close> have nl: "\<not> r < r - 1" and ne: "r \<noteq> r - 1" by unat_arith+
  have "getTrustedPreviousSignature ch v r =
          walk_from ch info r (record_call CallInfo v) r (Signature pot)"
    using getTrustedPreviousSignature_cached[OF assms(1) r1 assms(2)] assms(3) by simp
  also have "\<dots> = (Inl (UnexpectedTrustRound r), record_call CallInfo v)"
    using nl ne by (simp add: walk_from_no_loop)
  finally show ?thesis by (simp add: pointOfTrust_record_call)
qed

theorem cached_round_equal_to_target_witness:
  "getTrustedPreviousSignature ex_chain (newVerifyingClient ex_client (Some (ex_result 5)) True 10) 5
     = (Inl (UnexpectedTrustRound 5),
        record_call CallInfo (newVerifyingClient ex_client (Some (ex_result 5)) True 10))"
  using cached_round_equal_to_target
    [of "newVerifyingClient ex_client (Some (ex_result 5)) True 10" ex_info "ex_result 5" 5 ex_chain]
  by (simp add: ex_defs)

text \<open>
  Without that first condition the error is another one: with the point of trust at
  round 5, target 5 and a collaborator that cannot serve the chain information, the walk
  returns the wrapped fetch error (lines 116-120), not "unexpected trust round".
\<close>

theorem cached_round_without_info_counterexample:
  "pointOfTrust (newVerifyingClient ex_offline (Some (ex_result 5)) True 10) = Some (ex_result 5) \<and>
   Round (ex_result 5) = 5 \<and> (2 :: 64 word) \<le> 5 \<and>
   fst (getTrustedPreviousSignature ex_chain
          (newVerifyingClient ex_offline (Some (ex_result 5)) True 10) 5)
     = Inl (CouldNotGetInfo (External 503)) \<and>
   fst (getTrustedPreviousSignature ex_chain
          (newVerifyingClient ex_offline (Some (ex_result 5)) True 10) 5)
     \<noteq> Inl (UnexpectedTrustRound 5)"
  by (simp add: run_defs ex_defs)

section \<open>When \<open>verify\<close> walks\<close>

lemma verify_unfold:
  "verify ch v info r =
     (if walks v r
      then (case getTrustedPreviousSignature ch v (RandomData_Round r) of
              (Inl err, v1) \<Rightarrow> (Inl err, v1)
            | (Inr ps, v1) \<Rightarrow> verify_link ch v1 info r ps)
      else verify_link ch v info r (nil_or (PreviousSignature r)))"
  by (cases "getTrustedPreviousSignature ch v (RandomData_Round r)")
     (auto simp: verify_def verify_link_def walks_def Let_def split: sum.splits)

lemma calls_extend_record_both:
  "calls_extend (record_call c v) ok v' \<Longrightarrow>
   \<exists>tr. calls v' = calls v @ c # tr \<and> list_all ok tr"
  by (auto simp: calls_extend_def record_call_def)

lemma getTrustedPreviousSignature_effects:
  "same_config v (snd (getTrustedPreviousSignature ch v round)) \<and>
   (\<exists>tr. calls (snd (getTrustedPreviousSignature ch v round)) = calls v @ CallInfo # tr \<and>
         list_all (\<lambda>c. c = CallInfo \<or> walk_call_within (anchor v round) (round - 1) c) tr)"
proof (rule getTrustedPreviousSignature_cases[where P = "\<lambda>rv.
     same_config v (snd rv) \<and>
     (\<exists>tr. calls (snd rv) = calls v @ CallInfo # tr \<and>
         list_all (\<lambda>c. c = CallInfo \<or> walk_call_within (anchor v round) (round - 1) c) tr)"],
    goal_cases)
  case (1 err)
  show ?case by (simp add: same_config_def record_call_def)
next
  case (2 info)
  show ?case by (simp add: same_config_def record_call_def)
next
  case (3 info)
  let ?v2 = "record_call CallInfo (record_call CallInfo v)"
  let ?v' = "snd (walk_from ch info round ?v2 1 (GroupHash info))"
  from 3 have a: "anchor v round = 1"
    by (auto simp: anchor_def slow_path_def split: option.splits)
  have "same_config ?v2 ?v'" and "calls_extend ?v2 (walk_call_within 1 (round - 1)) ?v'"
    using walk_from_effects[of ?v2 ch info round 1 "GroupHash info"] by simp_all
  then have "same_config v ?v'"
    and "\<exists>tr. calls ?v' = calls v @ CallInfo # tr \<and>
            list_all (\<lambda>c. c = CallInfo \<or> walk_call_within 1 (round - 1) c) tr"
    by (simp, auto simp: calls_extend_def record_call_def list_all_iff)
  then show ?case by (simp add: a)
next
  case (4 info pot)
  let ?v1 = "record_call CallInfo v"
  let ?v' = "snd (walk_from ch info round ?v1 (Round pot) (Signature pot))"
  from 4 have a: "anchor v round = Round pot"
    by (auto simp: anchor_def)
  have "same_config ?v1 ?v'" and "calls_extend ?v1 (walk_call_within (Round pot) (round - 1)) ?v'"
    using walk_from_effects[of ?v1 ch info round "Round pot" "Signature pot"] by simp_all
  then have "same_config v ?v'"
    and "\<exists>tr. calls ?v' = calls v @ CallInfo # tr \<and>
            list_all (\<lambda>c. c = CallInfo \<or> walk_call_within (Round pot) (round - 1) c) tr"
    by (simp, auto simp: calls_extend_def record_call_def list_all_iff)
  then show ?case by (simp add: a)
qed

lemma verify_link_effects:
  "\<exists>c. snd (verify_link ch v1 info r ps) = record_call c v1 \<and> is_primitive_call c"
  by (auto simp: verify_link_def Let_def split: option.splits)

text \<open>
  Claim C5.  The walk always starts with an \<open>Info\<close> call and \<open>verify\<close> makes none
  of its own, so \<open>verify\<close> invoked the walk exactly when an \<open>Info\<close> call appears among
  the calls it made.  That happens if and only if the round is below \<open>v2from\<close> and
  (strict mode is on or the record has no previous-signature hint); then \<open>verify\<close> is
  the walk followed by the check with the walk's answer.  In all other cases \<open>verify\<close> is
  the check with the hint (nil when absent) as the previous signature.
\<close>

theorem verify_walks_iff:
  "(CallInfo \<in> set (new_calls v (snd (verify ch v info r))) \<longleftrightarrow>
      RandomData_Round r < v2from v \<and> (strict v \<or> PreviousSignature r = None)) \<and>
   (RandomData_Round r < v2from v \<and> (strict v \<or> PreviousSignature r = None) \<longrightarrow>
      verify ch v info r =
        (case getTrustedPreviousSignature ch v (RandomData_Round r) of
           (Inl err, v1) \<Rightarrow> (Inl err, v1)
         | (Inr ps, v1) \<Rightarrow> verify_link ch v1 info r ps)) \<and>
   (\<not> (RandomData_Round r < v2from v \<and> (strict v \<or> PreviousSignature r = None)) \<longrightarrow>
      verify ch v info r = verify_link ch v info r (nil_or (PreviousSignature r)))"
proof (cases "walks v r")
  case True
  obtain res v1 where g: "getTrustedPreviousSignature ch v (RandomData_Round r) = (res, v1)"
    by (cases "getTrustedPreviousSignature ch v (RandomData_Round r)")
  obtain tr where tr: "calls v1 = calls v @ CallInfo # tr"
    using getTrustedPreviousSignature_effects[of v ch "RandomData_Round r"] g by auto
  have "\<exists>tr'. calls (snd (verify ch v info r)) = calls v @ CallInfo # tr'"
  proof (cases res)
    case (Inl err)
    with True g tr show ?thesis by (simp add: verify_unfold)
  next
    case (Inr ps)
    obtain c where "snd (verify_link ch v1 info r ps) = record_call c v1"
      using verify_link_effects by blast
    with True g tr Inr show ?thesis by (simp add: verify_unfold record_call_def)
  qed
  then have m: "CallInfo \<in> set (new_calls v (snd (verify ch v info r)))" by auto
  have c: "RandomData_Round r < v2from v \<and> (strict v \<or> PreviousSignature r = None)"
    using True by (simp add: walks_def)
  have u: "verify ch v info r =
        (case getTrustedPreviousSignature ch v (RandomData_Round r) of
           (Inl err, v1) \<Rightarrow> (Inl err, v1)
         | (Inr ps, v1) \<Rightarrow> verify_link ch v1 info r ps)"
    using True by (simp add: verify_unfold)
  from m c u show ?thesis by blast
next
  case False
  obtain c where c: "snd (verify_link ch v info r (nil_or (PreviousSignature r))) = record_call c v"
    "is_primitive_call c"
    using verify_link_effects by blast
  then have "c \<noteq> CallInfo" by auto
  have u: "verify ch v info r = verify_link ch v info r (nil_or (PreviousSignature r))"
    using False by (simp add: verify_unfold)
  with c \<open>c \<noteq> CallInfo\<close> have m: "CallInfo \<notin> set (new_calls v (snd (verify ch v info r)))"
    by simp
  have n: "\<not> (RandomData_Round r < v2from v \<and> (strict v \<or> PreviousSignature r = None))"
    using False by (simp add: walks_def)
  from m n u show ?thesis by blast
qed

text \<open>In strict mode the hinted record is walked for; otherwise its hint is used.\<close>

theorem verify_walks_iff_witness:
  "CallInfo \<in> set (new_calls (newVerifyingClient ex_client None True 10)
      (snd (verify ex_chain (newVerifyingClient ex_client None True 10) ex_info ex_hinted))) \<and>
   verify ex_chain (newVerifyingClient ex_client None False 10) ex_info ex_hinted =
     verify_link ex_chain (newVerifyingClient ex_client None False 10) ex_info ex_hinted [2] \<and>
   CallInfo \<notin> set (new_calls (newVerifyingClient ex_client None False 10)
      (snd (verify ex_chain (newVerifyingClient ex_client None False 10) ex_info ex_hinted)))"
proof -
  let ?s = "newVerifyingClient ex_client None True 10"
  let ?n = "newVerifyingClient ex_client None False 10"
  have s: "RandomData_Round ex_hinted < v2from ?s \<and>
           (strict ?s \<or> PreviousSignature ex_hinted = None)"
    by (simp add: ex_hinted_def newVerifyingClient_def RandomData_Round_def)
  have n: "\<not> (RandomData_Round ex_hinted < v2from ?n \<and>
           (strict ?n \<or> PreviousSignature ex_hinted = None))"
    by (simp add: ex_hinted_def newVerifyingClient_def RandomData_Round_def)
  have h: "nil_or (PreviousSignature ex_hinted) = [2]"
    by (simp add: ex_hinted_def nil_or_def)
  from verify_walks_iff[of ?s ex_chain ex_info ex_hinted] s
  have 1: "CallInfo \<in> set (new_calls ?s (snd (verify ex_chain ?s ex_info ex_hinted)))"
    by blast
  from verify_walks_iff[of ?n ex_chain ex_info ex_hinted] n
  have "verify ex_chain ?n ex_info ex_hinted =
          verify_link ex_chain ?n ex_info ex_hinted (nil_or (PreviousSignature ex_hinted))"
    and 3: "CallInfo \<notin> set (new_calls ?n (snd (verify ex_chain ?n ex_info ex_hinted)))"
    by blast+
  then have 2: "verify ex_chain ?n ex_info ex_hinted = verify_link ex_chain ?n ex_info ex_hinted [2]"
    by (simp only: h)
  from 1 2 3 show ?thesis by blast
qed

section \<open>What \<open>verify\<close> changes\<close>

lemma verify_link_same_config: "same_config v1 (snd (verify_link ch v1 info r ps))"
  by (auto simp: verify_link_def Let_def same_config_refl split: option.splits)


lemma verify_link_success:
  "verify_link ch v1 info r ps = (Inr rd', v') \<Longrightarrow>
   rd' = r\<lparr>Random := RandomnessFromSignature ch
              (if RandomData_Round r \<ge> v2from v1 then SigV2 r else Sig r)\<rparr>"
  by (auto simp: verify_link_def Let_def split: option.splits if_splits)

lemma same_config_trans:
  "same_config v v' \<Longrightarrow> same_config v' v'' \<Longrightarrow> same_config v v''"
  by (simp add: same_config_def)

lemma verify_same_config: "same_config v (snd (verify ch v info r))"
proof (cases "walks v r")
  case False
  then show ?thesis by (simp add: verify_unfold verify_link_same_config)
next
  case True
  obtain res v1 where g: "getTrustedPreviousSignature ch v (RandomData_Round r) = (res, v1)"
    by (cases "getTrustedPreviousSignature ch v (RandomData_Round r)")
  have sc: "same_config v v1"
    using getTrustedPreviousSignature_effects[of v ch "RandomData_Round r"] g by simp
  show ?thesis
  proof (cases res)
    case (Inl err)
    with True g sc show ?thesis by (simp add: verify_unfold)
  next
    case (Inr ps)
    with True g same_config_trans[OF sc verify_link_same_config[of v1 ch info r ps]]
    show ?thesis by (simp add: verify_unfold)
  qed
qed

lemma verify_success:
  assumes "verify ch v info r = (Inr rd', v')"
  shows "rd' = r\<lparr>Random := RandomnessFromSignature ch
              (if RandomData_Round r \<ge> v2from v then SigV2 r else Sig r)\<rparr>"
proof (cases "walks v r")
  case False
  with assms show ?thesis by (simp add: verify_unfold verify_link_success)
next
  case True
  obtain res v1 where g: "getTrustedPreviousSignature ch v (RandomData_Round r) = (res, v1)"
    by (cases "getTrustedPreviousSignature ch v (RandomData_Round r)")
  have sc: "v2from v1 = v2from v"
    using getTrustedPreviousSignature_effects[of v ch "RandomData_Round r"] g
    by (simp add: same_config_def)
  from assms True g obtain ps where "res = Inr ps" "verify_link ch v1 info r ps = (Inr rd', v')"
    by (cases res) (auto simp: verify_unfold)
  then show ?thesis using verify_link_success[of ch v1 info r ps rd' v'] sc by simp
qed

section \<open>The stream\<close>

lemma delivered_same_config: "v2from v' = v2from v \<Longrightarrow> delivered ch v' r = delivered ch v r"
  by (cases r) simp_all

lemma forwarded_delivered:
  "verify ch v info (asRandomData v r) = (Inr rd', v') \<Longrightarrow> forwarded r rd' = delivered ch v r"
  by (cases r) (auto dest: verify_success)

lemma passing_Nil: "passing ch info v [] = []"
  by (simp add: passing_def)

lemma passing_Cons_dropped:
  "verify ch v info (asRandomData v r) = (Inl err, v') \<Longrightarrow>
   passing ch info v (r # inCh) = passing ch info v' inCh"
  by (simp add: passing_def)

lemma passing_Cons_kept:
  "verify ch v info (asRandomData v r) = (Inr rd', v') \<Longrightarrow>
   passing ch info v (r # inCh) = r # passing ch info v' inCh"
  by (simp add: passing_def)

lemma length_verdicts: "length (verdicts ch info v inCh) = length inCh"
  by (induction inCh arbitrary: v) (auto split: prod.splits sum.splits)

lemma watch_loop_output:
  "fst (watch_loop ch info v inCh) = map (delivered ch v) (passing ch info v inCh)"
proof (induction inCh arbitrary: v)
  case Nil
  show ?case by (simp add: passing_Nil)
next
  case (Cons r inCh)
  obtain res v' where vr: "verify ch v info (asRandomData v r) = (res, v')"
    by (cases "verify ch v info (asRandomData v r)")
  have "same_config v v'"
    using verify_same_config[of v ch info "asRandomData v r"] vr by simp
  then have d: "delivered ch v' = delivered ch v"
    by (auto simp: same_config_def intro: delivered_same_config)
  show ?case
  proof (cases res)
    case (Inl err)
    with vr Cons.IH[of v'] d show ?thesis
      by (simp add: passing_Cons_dropped)
  next
    case (Inr rd')
    obtain outCh v'' where w: "watch_loop ch info v' inCh = (outCh, v'')"
      by (cases "watch_loop ch info v' inCh")
    with Cons.IH[of v'] d have "outCh = map (delivered ch v) (passing ch info v' inCh)"
      by simp
    with Inr vr w forwarded_delivered[of ch v info r rd' v'] show ?thesis
      by (simp add: passing_Cons_kept)
  qed
qed

text \<open>
  Claim C8.  Once the chain information is fetched and the upstream stream subscribed,
  the output stream of \<open>Watch\<close> consists of exactly the upstream items that pass
  verification, in input order: a failing item is dropped and the loop goes on with the
  next one, every upstream item gets a verdict, and the output ends when the input
  does.  Each forwarded item is the item received (a \<open>*RandomData\<close> item is seen with
  the randomness \<open>verify\<close> wrote into it).
\<close>

theorem watch_forwards_exactly_the_passing_items:
  assumes "Info (indirectClient v) = Inr info"
  shows "fst (verifyingClient_Watch ch v) =
           map (delivered ch v)
             (passing ch info (record_call CallWatch (record_call CallInfo v)) (Watch (wrapped v))) \<and>
         length (verdicts ch info (record_call CallWatch (record_call CallInfo v)) (Watch (wrapped v)))
           = length (Watch (wrapped v))"
proof -
  have "delivered ch (record_call CallWatch (record_call CallInfo v)) = delivered ch v"
    by (rule ext, rule delivered_same_config) (simp add: record_call_def)
  then show ?thesis
    using assms by (simp add: verifyingClient_Watch_def watch_loop_output length_verdicts)
qed

text \<open>Round 1 valid, round 2 with a tampered signature, round 3 valid: rounds 1 and 3 come out.\<close>

theorem watch_forwards_exactly_the_passing_items_witness:
  "fst (verifyingClient_Watch ex_chain (newVerifyingClient ex_client None True 10))
     = [ex_result 1, ex_result 3]"
proof -
  let ?v = "newVerifyingClient ex_client None True 10"
  have i: "Info (indirectClient ?v) = Inr ex_info"
    by (simp add: ex_defs)
  have p: "passing ex_chain ex_info (record_call CallWatch (record_call CallInfo ?v))
             (Watch (wrapped ?v)) = [ex_result 1, ex_result 3]"
    by (simp add: passing_def run_defs ex_defs)
  from watch_forwards_exactly_the_passing_items[OF i, of ex_chain] p show ?thesis
    by (simp add: ex_result_def)
qed

section \<open>Randomness of the results handed out\<close>

text \<open>\<open>Get\<close> returns the adapted record, whose randomness \<open>verify\<close> has recomputed.\<close>

lemma Get_randomness:
  assumes "verifyingClient_Get ch v round = (Inr rd, v')"
  shows "Random rd = RandomnessFromSignature ch
           (if RandomData_Round rd \<ge> v2from v then SigV2 rd else Sig rd)"
proof -
  from assms obtain info r v1 where
    "verify ch v1 info (asRandomData v1 r) = (Inr rd, v')" "v2from v1 = v2from v"
    by (auto simp: verifyingClient_Get_def Let_def record_call_def
             split: sum.splits prod.splits)
  then show ?thesis
    using verify_success[of ch v1 info "asRandomData v1 r" rd v']
    by (simp add: RandomData_Round_def)
qed

text \<open>
  Claim C2 fails on the \<open>Watch\<close> path.  Line 82 sends \<open>r\<close>, the item as received, while
  \<open>verify\<close> recomputed the randomness of the adapted record; for an item that is not a
  \<open>*RandomData\<close> these are two objects.  Here the upstream items carry the randomness
  byte 255: the items forwarded for rounds 1 and 3 still carry it, although the
  randomness derived from their signatures is \<open>[1, 1]\<close> and \<open>[3, 3]\<close>; \<open>Get\<close> of round 3
  from the same collaborator returns the derived \<open>[3, 3]\<close>.
\<close>

theorem watch_forwards_raw_randomness:
  "fst (verifyingClient_Watch ex_chain (newVerifyingClient ex_client None True 10))
     = [Foreign 1 [255] [1] None, Foreign 3 [255] [3] None] \<and>
   map Randomness (fst (verifyingClient_Watch ex_chain (newVerifyingClient ex_client None True 10)))
     = [[255], [255]] \<and>
   map (\<lambda>r. RandomnessFromSignature ex_chain (Signature r))
     (fst (verifyingClient_Watch ex_chain (newVerifyingClient ex_client None True 10)))
     = [[1, 1], [3, 3]] \<and>
   map_sum id Random (fst (verifyingClient_Get ex_chain (newVerifyingClient ex_client None True 10) 3))
     = Inr [3, 3]"
  by (simp add: run_defs ex_defs)

section \<open>The signature scheme by round\<close>

lemma verify_link_v2:
  "v2from v1 \<le> RandomData_Round r \<Longrightarrow>
   snd (verify_link ch v1 info r ps) =
     record_call (CallVerifyBeaconV2 (Clone (PublicKey info))
       \<lparr>PreviousSig = ps, BRound = RandomData_Round r, BSignature = [], SignatureV2 = SigV2 r\<rparr>) v1"
  by (auto simp: verify_link_def Let_def split: option.splits)

lemma verify_link_v1:
  "RandomData_Round r < v2from v1 \<Longrightarrow>
   snd (verify_link ch v1 info r ps) =
     record_call (CallVerifyBeacon (Clone (PublicKey info))
       \<lparr>PreviousSig = ps, BRound = RandomData_Round r,
        BSignature = RandomData_Signature r, SignatureV2 = []\<rparr>) v1"
  by (auto simp: verify_link_def Let_def not_le[symmetric] split: option.splits)

lemma verify_link_v1_error:
  "RandomData_Round r < v2from v1 \<Longrightarrow>
   fst (verify_link ch v1 info r ps) = Inl (VerificationV1Failed b e) \<Longrightarrow>
   BSignature b = RandomData_Signature r \<and> BRound b = RandomData_Round r"
  by (auto simp: verify_link_def Let_def not_le[symmetric] split: option.splits)

lemma walk_call_not_v2: "c = CallInfo \<or> walk_call_within lo hi c \<Longrightarrow> \<not> is_v2_call c"
  by (cases c) auto

lemma walk_loop_errors:
  "fst (walk_loop ch info round v t p nx) = Inl err \<longrightarrow> is_walk_error err"
  by (rule walk_loop_cases[where P = "\<lambda>v t p nx rv. fst rv = Inl err \<longrightarrow> is_walk_error err"])
     auto

lemma walk_from_errors:
  "fst (walk_from ch info round v t0 p0) = Inl err \<Longrightarrow> is_walk_error err"
proof -
  assume e: "fst (walk_from ch info round v t0 p0) = Inl err"
  obtain res v' where w: "walk_loop ch info round v t0 p0 None = (res, v')"
    by (cases "walk_loop ch info round v t0 p0 None")
  show ?thesis
  proof (cases res)
    case (Inl err')
    with w e walk_loop_errors[of ch info round v t0 p0 None err'] show ?thesis
      by (simp add: walk_from_def)
  next
    case (Inr x)
    with w e show ?thesis
      by (cases x) (auto simp: walk_from_def Let_def split: if_splits)
  qed
qed

lemma getTrustedPreviousSignature_errors:
  "fst (getTrustedPreviousSignature ch v round) = Inl err \<longrightarrow> is_walk_error err"
  by (rule getTrustedPreviousSignature_cases[where P = "\<lambda>rv.
         fst rv = Inl err \<longrightarrow> is_walk_error err"])
     (auto dest: walk_from_errors)

lemma verify_below_threshold:
  assumes lt: "RandomData_Round r < v2from v"
  shows "list_all (\<lambda>c. \<not> is_v2_call c) (new_calls v (snd (verify ch v info r))) \<and>
         (\<forall>rd'. fst (verify ch v info r) = Inr rd' \<longrightarrow>
            (\<exists>ps. last (new_calls v (snd (verify ch v info r))) =
               CallVerifyBeacon (Clone (PublicKey info))
                 \<lparr>PreviousSig = ps, BRound = RandomData_Round r,
                  BSignature = RandomData_Signature r, SignatureV2 = []\<rparr>)) \<and>
         (\<forall>b e. fst (verify ch v info r) = Inl (VerificationV1Failed b e) \<longrightarrow>
            BSignature b = RandomData_Signature r \<and> BRound b = RandomData_Round r)"
proof (cases "walks v r")
  case False
  then have u: "verify ch v info r = verify_link ch v info r (nil_or (PreviousSignature r))"
    by (simp add: verify_unfold)
  show ?thesis
    unfolding u using verify_link_v1[OF lt, of ch info] verify_link_v1_error[OF lt, of ch info]
    by auto
next
  case True
  obtain res v1 where g: "getTrustedPreviousSignature ch v (RandomData_Round r) = (res, v1)"
    by (cases "getTrustedPreviousSignature ch v (RandomData_Round r)")
  obtain tr where tr: "calls v1 = calls v @ CallInfo # tr"
      "list_all (\<lambda>c. c = CallInfo \<or>
          walk_call_within (anchor v (RandomData_Round r)) (RandomData_Round r - 1) c) tr"
    and sc: "same_config v v1"
    using getTrustedPreviousSignature_effects[of v ch "RandomData_Round r"] g by auto
  have nv2: "list_all (\<lambda>c. \<not> is_v2_call c) (CallInfo # tr)"
    using tr(2) walk_call_not_v2 by (fastforce simp: list_all_iff)
  have lt1: "RandomData_Round r < v2from v1"
    using lt sc by (simp add: same_config_def)
  show ?thesis
  proof (cases res)
    case (Inl err)
    then have u: "verify ch v info r = (Inl err, v1)"
      using True g by (simp add: verify_unfold)
    have "\<forall>b e. err \<noteq> VerificationV1Failed b e"
      using getTrustedPreviousSignature_errors[of ch v "RandomData_Round r" err] g Inl by auto
    then show ?thesis
      unfolding u using tr(1) nv2 by simp
  next
    case (Inr ps)
    then have u: "verify ch v info r = verify_link ch v1 info r ps"
      using True g by (simp add: verify_unfold)
    show ?thesis
      unfolding u using verify_link_v1[OF lt1, of ch info ps] verify_link_v1_error[OF lt1, of ch info ps]
        tr(1) nv2
      by (auto simp: record_call_def)
  qed
qed

text \<open>
  What holds whatever the record's tag: at or after \<open>v2from\<close>, \<open>verify\<close> makes one call
  only, the v2 primitive on a link whose v2 signature is the record's \<open>SigV2\<close> slot;
  below \<open>v2from\<close> it never calls the v2 primitive, and the link it checks carries what
  \<open>Signature()\<close> returns.  The adapter stores the signature of a result that is not a
  \<open>*RandomData\<close> in \<open>SigV2\<close> with tag 2 at or after \<open>v2from\<close>, and in \<open>Sig\<close> with tag 0
  below it.
\<close>

lemma scheme_by_round:
  "(v2from v \<le> RandomData_Round r \<longrightarrow>
      new_calls v (snd (verify ch v info r)) =
        [CallVerifyBeaconV2 (Clone (PublicKey info))
           \<lparr>PreviousSig = nil_or (PreviousSignature r), BRound = RandomData_Round r,
            BSignature = [], SignatureV2 = SigV2 r\<rparr>]) \<and>
   (v2from v \<le> n \<longrightarrow>
      SigV2 (asRandomData v (Foreign n rnd s p)) = s \<and>
      version (asRandomData v (Foreign n rnd s p)) = 2) \<and>
   (n < v2from v \<longrightarrow>
      Sig (asRandomData v (Foreign n rnd s p)) = s \<and>
      version (asRandomData v (Foreign n rnd s p)) = 0) \<and>
   (RandomData_Round r < v2from v \<longrightarrow>
      list_all (\<lambda>c. \<not> is_v2_call c) (new_calls v (snd (verify ch v info r))) \<and>
      (\<forall>rd'. fst (verify ch v info r) = Inr rd' \<longrightarrow>
         (\<exists>ps. last (new_calls v (snd (verify ch v info r))) =
            CallVerifyBeacon (Clone (PublicKey info))
              \<lparr>PreviousSig = ps, BRound = RandomData_Round r,
               BSignature = RandomData_Signature r, SignatureV2 = []\<rparr>)) \<and>
      (\<forall>b e. fst (verify ch v info r) = Inl (VerificationV1Failed b e) \<longrightarrow>
         BSignature b = RandomData_Signature r \<and> BRound b = RandomData_Round r))"
proof (intro conjI impI)
  assume ge: "v2from v \<le> RandomData_Round r"
  then have "\<not> walks v r" by (auto simp: walks_def)
  then show "new_calls v (snd (verify ch v info r)) =
        [CallVerifyBeaconV2 (Clone (PublicKey info))
           \<lparr>PreviousSig = nil_or (PreviousSignature r), BRound = RandomData_Round r,
            BSignature = [], SignatureV2 = SigV2 r\<rparr>]"
    using verify_link_v2[OF ge, of ch info "nil_or (PreviousSignature r)"]
    by (simp add: verify_unfold)
next
  assume "v2from v \<le> n"
  then show "SigV2 (asRandomData v (Foreign n rnd s p)) = s"
    and "version (asRandomData v (Foreign n rnd s p)) = 2"
    by simp_all
next
  assume "n < v2from v"
  then show "Sig (asRandomData v (Foreign n rnd s p)) = s"
    and "version (asRandomData v (Foreign n rnd s p)) = 0"
    by (simp_all add: not_le[symmetric])
next
  assume a: "RandomData_Round r < v2from v"
  from verify_below_threshold[OF a, of ch info]
  show "list_all (\<lambda>c. \<not> is_v2_call c) (new_calls v (snd (verify ch v info r)))"
    and "\<forall>rd'. fst (verify ch v info r) = Inr rd' \<longrightarrow>
         (\<exists>ps. last (new_calls v (snd (verify ch v info r))) =
            CallVerifyBeacon (Clone (PublicKey info))
              \<lparr>PreviousSig = ps, BRound = RandomData_Round r,
               BSignature = RandomData_Signature r, SignatureV2 = []\<rparr>)"
    and "\<forall>b e. fst (verify ch v info r) = Inl (VerificationV1Failed b e) \<longrightarrow>
         BSignature b = RandomData_Signature r \<and> BRound b = RandomData_Round r"
    by simp_all
qed


section \<open>The invariant of the point of trust\<close>




















section \<open>The point of trust after a successful walk\<close>









section \<open>Asking for the same round again\<close>










end
